theory Spec2Isabelle
  imports Main "HOL-Library.Multiset" "HOL-Library.List_Lexorder"
begin

section \<open>Data model\<close>

text \<open>
  The service (\<^verbatim>\<open>src/index.js\<close>) keeps one MongoDB collection of \<^verbatim>\<open>Statistic\<close>
  documents with the two schema fields \<^verbatim>\<open>url\<close> and \<^verbatim>\<open>timestamp\<close>
  (\<^verbatim>\<open>src/unnamed/part_000\<close>). The collection is modelled as the list of its documents in
  insertion order. The store-assigned \<^verbatim>\<open>_id\<close> and \<^verbatim>\<open>__v\<close> fields are not part of the
  schema and are left out.

  A value that can reach the \<^verbatim>\<open>url\<close> field from a JSON body whose \<^verbatim>\<open>calledService\<close> is
  text: the field may be absent (\<^verbatim>\<open>undefined\<close>), \<^verbatim>\<open>null\<close>, or a string.
\<close>

datatype jsval = Undefined | Null | Str string

text \<open>A JavaScript \<^verbatim>\<open>Date\<close>, read through its local calendar fields.\<close>

record jsdate =
  year :: nat
  month :: nat
  day :: nat
  hours :: nat
  minutes :: nat
  seconds :: nat
  millis :: nat

text \<open>
  The file \<^verbatim>\<open>src/unnamed/part_000\<close> holds two variants of \<^verbatim>\<open>statisticSchema\<close>: one
  declares \<^verbatim>\<open>timestamp\<close> as \<^verbatim>\<open>String\<close>, the other as \<^verbatim>\<open>Date\<close>.
\<close>

datatype schema_type = SchemaString | SchemaDate

datatype tsval = TStr string | TDate jsdate

record statistic =
  url :: jsval
  timestamp :: tsval

datatype error = StorageError | CastError

type_synonym req_body = "(string \<times> jsval) list"

text \<open>The documents produced by the \<^verbatim>\<open>$project\<close> stage: \<^verbatim>\<open>{ url, count }\<close>.\<close>

datatype count_doc = CountDoc (url_of: jsval) (count_of: nat)

datatype body =
    ErrorBody string
  | StatBody "statistic option"
  | CountBody count_doc
  | CountsBody "count_doc list"

datatype response = Response (status: nat) (body: body)

section \<open>The environment of the handlers\<close>

text \<open>
  Everything the handlers take from outside the repository is a field of the environment:
  whether the MongoDB connection works, which schema variant is loaded, the runtime's
  \<^verbatim>\<open>Date.prototype.toLocaleString\<close> and \<^verbatim>\<open>new Date(string)\<close>, and the two orders MongoDB
  leaves open: the order in which a collection scan yields the documents and the order in
  which \<^verbatim>\<open>$group\<close> emits its groups.
\<close>

record env =
  connected :: bool
  schema :: schema_type
  toLocaleString :: "jsdate \<Rightarrow> string"
  parseDate :: "string \<Rightarrow> jsdate option"
  natural_order :: "statistic list \<Rightarrow> statistic list"
  group_order :: "(jsval \<times> nat) list \<Rightarrow> (jsval \<times> nat) list"

text \<open>The engine may order documents and groups as it likes, but it neither drops nor invents any.\<close>

definition engine_ok :: "env \<Rightarrow> bool" where
  "engine_ok e \<longleftrightarrow>
     (\<forall>ds. mset (natural_order e ds) = mset ds) \<and> (\<forall>gs. mset (group_order e gs) = mset gs)"

subsection \<open>The en-US rendering of \<^verbatim>\<open>toLocaleString\<close>\<close>

definition digit :: "nat \<Rightarrow> char" where
  "digit n = ''0123456789'' ! (n mod 10)"

fun show_nat :: "nat \<Rightarrow> string" where
  "show_nat n = (if n < 10 then [digit n] else show_nat (n div 10) @ [digit n])"

declare show_nat.simps [simp del]

definition pad2 :: "nat \<Rightarrow> string" where
  "pad2 n = (if n < 10 then CHR ''0'' # show_nat n else show_nat n)"

definition hour12 :: "nat \<Rightarrow> nat" where
  "hour12 h = (if h mod 12 = 0 then 12 else h mod 12)"

text \<open>\<^verbatim>\<open>M/D/YYYY, h:mm:ss AM\<close>, as Node prints a date in the en-US locale.\<close>

definition toLocaleString_enUS :: "jsdate \<Rightarrow> string" where
  "toLocaleString_enUS d =
     show_nat (month d) @ ''/'' @ show_nat (day d) @ ''/'' @ show_nat (year d) @ '', '' @
     show_nat (hour12 (hours d)) @ '':'' @ pad2 (minutes d) @ '':'' @ pad2 (seconds d) @
     (if hours d < 12 then '' AM'' else '' PM'')"

text \<open>The chronological position of a date with valid calendar fields.\<close>

definition chron :: "jsdate \<Rightarrow> nat" where
  "chron d =
     (((((year d * 12 + (month d - 1)) * 31 + (day d - 1)) * 24 + hours d) * 60 + minutes d) * 60
        + seconds d) * 1000 + millis d"

section \<open>The store operations used by the handlers\<close>

text \<open>
  MongoDB's sort order on the stored \<^verbatim>\<open>timestamp\<close> values: strings come before dates,
  strings compare byte by byte, dates chronologically.
\<close>

fun ts_key :: "tsval \<Rightarrow> nat list" where
  "ts_key (TStr s) = 1 # map of_char s"
| "ts_key (TDate d) = [2, chron d]"

text \<open>Mongoose casts the \<^verbatim>\<open>timestamp\<close> argument to the schema's type.\<close>

definition cast_timestamp :: "env \<Rightarrow> string \<Rightarrow> error + tsval" where
  "cast_timestamp e s =
     (case schema e of
        SchemaString \<Rightarrow> Inr (TStr s)
      | SchemaDate \<Rightarrow> (case parseDate e s of None \<Rightarrow> Inl CastError | Some d \<Rightarrow> Inr (TDate d)))"

text \<open>\<^verbatim>\<open>new Statistic({ url: calledService, timestamp: ... })\<close>.\<close>

definition new_Statistic :: "env \<Rightarrow> jsval \<Rightarrow> string \<Rightarrow> error + statistic" where
  "new_Statistic e calledService ts =
     (case cast_timestamp e ts of
        Inl err \<Rightarrow> Inl err
      | Inr t \<Rightarrow> Inr \<lparr>url = calledService, timestamp = t\<rparr>)"

text \<open>\<^verbatim>\<open>newStatistic.save()\<close>: one document is inserted, or the call throws.\<close>

definition save :: "env \<Rightarrow> statistic \<Rightarrow> statistic list \<Rightarrow> error + statistic list" where
  "save e d docs = (if connected e then Inr (docs @ [d]) else Inl StorageError)"

text \<open>
  A descending sort on a key. Neither handler gives its sort a second key, so elements with
  equal keys keep the order in which the engine delivered them.
\<close>

fun insort_desc :: "('a \<Rightarrow> 'k::linorder) \<Rightarrow> 'a \<Rightarrow> 'a list \<Rightarrow> 'a list" where
  "insort_desc f x [] = [x]"
| "insort_desc f x (y # ys) = (if f y \<le> f x then x # y # ys else y # insort_desc f x ys)"

definition sort_desc :: "('a \<Rightarrow> 'k::linorder) \<Rightarrow> 'a list \<Rightarrow> 'a list" where
  "sort_desc f xs = foldr (insort_desc f) xs []"

text \<open>\<^verbatim>\<open>Statistic.findOne().sort({ timestamp: -1 }).limit(1)\<close>.\<close>

definition latestStat :: "env \<Rightarrow> statistic list \<Rightarrow> error + statistic option" where
  "latestStat e docs =
     (if connected e
      then Inr (case sort_desc (\<lambda>d. ts_key (timestamp d)) (natural_order e docs) of
                  [] \<Rightarrow> None
                | d # _ \<Rightarrow> Some d)
      else Inl StorageError)"

text \<open>
  \<^verbatim>\<open>{ $group: { _id: "$url", count: { $sum: 1 } } }\<close>: a missing \<^verbatim>\<open>url\<close> groups under
  \<^verbatim>\<open>null\<close>; every document adds one to the accumulator of its group.
\<close>

fun group_key :: "jsval \<Rightarrow> jsval" where
  "group_key Undefined = Null"
| "group_key v = v"

fun accumulate :: "jsval \<Rightarrow> (jsval \<times> nat) list \<Rightarrow> (jsval \<times> nat) list" where
  "accumulate k [] = [(k, 1)]"
| "accumulate k ((k', n) # gs) =
     (if k = k' then (k', n + 1) # gs else (k', n) # accumulate k gs)"

definition group_scan :: "statistic list \<Rightarrow> (jsval \<times> nat) list" where
  "group_scan docs = foldl (\<lambda>acc d. accumulate (group_key (url d)) acc) [] docs"

definition group_stage :: "env \<Rightarrow> statistic list \<Rightarrow> (jsval \<times> nat) list" where
  "group_stage e docs = group_order e (group_scan (natural_order e docs))"

text \<open>\<^verbatim>\<open>{ $sort: { count: -1 } }\<close>, \<^verbatim>\<open>{ $limit: 1 }\<close> and
  \<^verbatim>\<open>{ $project: { url: "$_id", count: 1, _id: 0 } }\<close>.\<close>

definition sort_stage :: "(jsval \<times> nat) list \<Rightarrow> (jsval \<times> nat) list" where
  "sort_stage gs = sort_desc snd gs"

definition limit_stage :: "nat \<Rightarrow> 'a list \<Rightarrow> 'a list" where
  "limit_stage n xs = take n xs"

definition project_stage :: "(jsval \<times> nat) list \<Rightarrow> count_doc list" where
  "project_stage gs = map (\<lambda>(k, c). CountDoc k c) gs"

definition mostCalledStat :: "env \<Rightarrow> statistic list \<Rightarrow> error + count_doc list" where
  "mostCalledStat e docs =
     (if connected e
      then Inr (project_stage (limit_stage 1 (sort_stage (group_stage e docs))))
      else Inl StorageError)"

definition endpointCounts :: "env \<Rightarrow> statistic list \<Rightarrow> error + count_doc list" where
  "endpointCounts e docs =
     (if connected e then Inr (project_stage (group_stage e docs)) else Inl StorageError)"

section \<open>The request handlers\<close>

definition internal_error :: response where
  "internal_error = Response 500 (ErrorBody ''Internal Server Error'')"

definition no_statistics :: response where
  "no_statistics = Response 404 (ErrorBody ''No statistics available'')"

text \<open>\<^verbatim>\<open>GET /stats/latest\<close>\<close>

definition get_stats_latest :: "env \<Rightarrow> statistic list \<Rightarrow> response" where
  "get_stats_latest e docs =
     (case latestStat e docs of
        Inl err \<Rightarrow> internal_error
      | Inr s \<Rightarrow> Response 200 (StatBody s))"

text \<open>\<^verbatim>\<open>GET /stats/most-called\<close>\<close>

definition get_stats_most_called :: "env \<Rightarrow> statistic list \<Rightarrow> response" where
  "get_stats_most_called e docs =
     (case mostCalledStat e docs of
        Inl err \<Rightarrow> internal_error
      | Inr r \<Rightarrow> (if length r = 0 then no_statistics else Response 200 (CountBody (r ! 0))))"

text \<open>\<^verbatim>\<open>GET /stats/endpoint-counts\<close>\<close>

definition get_stats_endpoint_counts :: "env \<Rightarrow> statistic list \<Rightarrow> response" where
  "get_stats_endpoint_counts e docs =
     (case endpointCounts e docs of
        Inl err \<Rightarrow> internal_error
      | Inr r \<Rightarrow> (if length r = 0 then no_statistics else Response 200 (CountsBody r)))"

text \<open>\<^verbatim>\<open>const { calledService } = req.body\<close>: a field the body lacks reads as \<^verbatim>\<open>undefined\<close>.\<close>

definition get_field :: "req_body \<Rightarrow> string \<Rightarrow> jsval" where
  "get_field b k = (case map_of b k of None \<Rightarrow> Undefined | Some v \<Rightarrow> v)"

text \<open>\<^verbatim>\<open>POST /stats\<close>, handled at the moment \<open>now\<close> (the value of \<^verbatim>\<open>new Date()\<close>).\<close>

definition post_stats ::
  "env \<Rightarrow> jsdate \<Rightarrow> req_body \<Rightarrow> statistic list \<Rightarrow> response \<times> statistic list" where
  "post_stats e now b docs =
     (case new_Statistic e (get_field b ''calledService'') (toLocaleString e now) of
        Inl err \<Rightarrow> (internal_error, docs)
      | Inr newStatistic \<Rightarrow>
          (case save e newStatistic docs of
             Inl err \<Rightarrow> (internal_error, docs)
           | Inr docs' \<Rightarrow> (Response 201 (StatBody (Some newStatistic)), docs')))"

text \<open>The server as a transition function on the collection.\<close>

datatype request = GetLatest | GetMostCalled | GetEndpointCounts | PostStats jsdate req_body

fun handle :: "env \<Rightarrow> request \<Rightarrow> statistic list \<Rightarrow> response \<times> statistic list" where
  "handle e GetLatest docs = (get_stats_latest e docs, docs)"
| "handle e GetMostCalled docs = (get_stats_most_called e docs, docs)"
| "handle e GetEndpointCounts docs = (get_stats_endpoint_counts e docs, docs)"
| "handle e (PostStats now b) docs = post_stats e now b docs"

text \<open>
  A run of \<^verbatim>\<open>record(endpoint)\<close> calls, each at its own moment; \<open>None\<close> as soon as one
  of them is not answered with status 201.
\<close>

fun record_all :: "env \<Rightarrow> (jsdate \<times> string) list \<Rightarrow> statistic list \<Rightarrow> statistic list option" where
  "record_all e [] docs = Some docs"
| "record_all e ((now, ep) # cs) docs =
     (case post_stats e now [(''calledService'', Str ep)] docs of
        (r, docs') \<Rightarrow> if status r = 201 then record_all e cs docs' else None)"

text \<open>An environment for concrete runs: connected, string schema, en-US locale.\<close>

definition env_enUS :: env where
  "env_enUS = \<lparr>connected = True, schema = SchemaString, toLocaleString = toLocaleString_enUS,
     parseDate = (\<lambda>s. None), natural_order = (\<lambda>ds. ds), group_order = (\<lambda>gs. gs)\<rparr>"

definition at_time :: "nat \<Rightarrow> nat \<Rightarrow> nat \<Rightarrow> nat \<Rightarrow> nat \<Rightarrow> nat \<Rightarrow> jsdate" where
  "at_time y mo d h mi s =
     \<lparr>year = y, month = mo, day = d, hours = h, minutes = mi, seconds = s, millis = 0\<rparr>"

text \<open>The scenario of the specification: two calls of one endpoint, one call of another.\<close>

definition calls3 :: "(jsdate \<times> string) list" where
  "calls3 = [(at_time 2026 11 3 9 0 0, ''checkout''), (at_time 2026 11 3 10 0 0, ''checkout''),
             (at_time 2026 11 3 11 0 0, ''inventory'')]"

definition docs3 :: "statistic list" where
  "docs3 = [\<lparr>url = Str ''checkout'', timestamp = TStr ''11/3/2026, 9:00:00 AM''\<rparr>,
            \<lparr>url = Str ''checkout'', timestamp = TStr ''11/3/2026, 10:00:00 AM''\<rparr>,
            \<lparr>url = Str ''inventory'', timestamp = TStr ''11/3/2026, 11:00:00 AM''\<rparr>]"

text \<open>Two calls an hour apart, and the collection they leave behind.\<close>

definition docs2 :: "statistic list" where
  "docs2 = [\<lparr>url = Str ''checkout'', timestamp = TStr ''11/3/2026, 9:00:00 AM''\<rparr>,
            \<lparr>url = Str ''inventory'', timestamp = TStr ''11/3/2026, 10:00:00 AM''\<rparr>]"

text \<open>The same environment with the connection to MongoDB lost.\<close>

definition env_down :: env where
  "env_down = env_enUS\<lparr>connected := False\<rparr>"

text \<open>An engine that yields documents and groups in the opposite order.\<close>

definition env_rev :: env where
  "env_rev = env_enUS\<lparr>natural_order := rev, group_order := rev\<rparr>"

text \<open>Two endpoints tied at two calls each.\<close>

definition docs_tie :: "statistic list" where
  "docs_tie = [\<lparr>url = Str ''checkout'', timestamp = TStr ''11/3/2026, 9:00:00 AM''\<rparr>,
               \<lparr>url = Str ''inventory'', timestamp = TStr ''11/3/2026, 9:00:01 AM''\<rparr>,
               \<lparr>url = Str ''inventory'', timestamp = TStr ''11/3/2026, 9:00:02 AM''\<rparr>,
               \<lparr>url = Str ''checkout'', timestamp = TStr ''11/3/2026, 9:00:03 AM''\<rparr>]"

text \<open>The three read requests.\<close>

fun is_read :: "request \<Rightarrow> bool" where
  "is_read (PostStats now b) = False"
| "is_read q = True"

text \<open>A collection in which one document has no \<^verbatim>\<open>url\<close>.\<close>

definition docs_null :: "statistic list" where
  "docs_null = [\<lparr>url = Str ''checkout'', timestamp = TStr ''11/3/2026, 9:00:00 AM''\<rparr>,
                \<lparr>url = Undefined, timestamp = TStr ''11/3/2026, 9:30:00 AM''\<rparr>]"

text \<open>The count an association list of groups holds for a key (0 when the key has no group).\<close>

definition tally :: "(jsval \<times> nat) list \<Rightarrow> jsval \<Rightarrow> nat" where
  "tally gs k = (case map_of gs k of None \<Rightarrow> 0 | Some n \<Rightarrow> n)"

text \<open>The scan of \<^const>\<open>group_scan\<close>, started from any accumulator.\<close>

definition group_fold :: "(jsval \<times> nat) list \<Rightarrow> statistic list \<Rightarrow> (jsval \<times> nat) list" where
  "group_fold acc docs = foldl (\<lambda>acc d. accumulate (group_key (url d)) acc) acc docs"

section \<open>Properties of the grouping stage\<close>

lemma keys_accumulate: "fst ` set (accumulate k gs) = insert k (fst ` set gs)"
  by (induction k gs rule: accumulate.induct) auto

lemma distinct_accumulate:
  "distinct (map fst gs) \<Longrightarrow> distinct (map fst (accumulate k gs))"
  by (induction k gs rule: accumulate.induct) (auto simp: keys_accumulate)

lemma tally_accumulate:
  "tally (accumulate k gs) k' = tally gs k' + (if k = k' then 1 else 0)"
  by (induction k gs rule: accumulate.induct) (auto simp: tally_def)

lemma sum_accumulate: "sum_list (map snd (accumulate k gs)) = Suc (sum_list (map snd gs))"
  by (induction k gs rule: accumulate.induct) auto

lemma group_fold_simps [simp]:
  "group_fold acc [] = acc"
  "group_fold acc (d # ds) = group_fold (accumulate (group_key (url d)) acc) ds"
  by (simp_all add: group_fold_def)

lemma keys_group_fold:
  "fst ` set (group_fold acc docs) = fst ` set acc \<union> (\<lambda>d. group_key (url d)) ` set docs"
  by (induction docs arbitrary: acc) (auto simp: keys_accumulate)

lemma distinct_group_fold:
  "distinct (map fst acc) \<Longrightarrow> distinct (map fst (group_fold acc docs))"
  by (induction docs arbitrary: acc) (auto simp: distinct_accumulate)

lemma tally_group_fold:
  "tally (group_fold acc docs) k = tally acc k + length (filter (\<lambda>d. group_key (url d) = k) docs)"
  by (induction docs arbitrary: acc) (auto simp: tally_accumulate)

lemma sum_group_fold:
  "sum_list (map snd (group_fold acc docs)) = sum_list (map snd acc) + length docs"
  by (induction docs arbitrary: acc) (auto simp: sum_accumulate)

lemma tally_member:
  "distinct (map fst gs) \<Longrightarrow> (k, n) \<in> set gs \<Longrightarrow> tally gs k = n"
  by (simp add: tally_def)

lemma group_scan_fold: "group_scan docs = group_fold [] docs"
  by (simp add: group_scan_def group_fold_def)

lemma keys_group_scan: "fst ` set (group_scan docs) = (\<lambda>d. group_key (url d)) ` set docs"
  by (simp add: group_scan_fold keys_group_fold)

lemma distinct_group_scan: "distinct (map fst (group_scan docs))"
  by (simp add: group_scan_fold distinct_group_fold)

lemma count_group_scan:
  assumes "(k, n) \<in> set (group_scan docs)"
  shows "n = length (filter (\<lambda>d. group_key (url d) = k) docs)"
proof -
  have "tally (group_scan docs) k = n"
    using assms distinct_group_scan by (rule tally_member[rotated])
  moreover have "tally (group_scan docs) k = length (filter (\<lambda>d. group_key (url d) = k) docs)"
    by (simp add: group_scan_fold tally_group_fold) (simp add: tally_def)
  ultimately show ?thesis by simp
qed

lemma sum_group_scan: "sum_list (map snd (group_scan docs)) = length docs"
  by (simp add: group_scan_fold sum_group_fold)

subsection \<open>The engine's orders keep every document and every group\<close>

lemma natural_set: "engine_ok e \<Longrightarrow> set (natural_order e ds) = set ds"
  by (metis engine_ok_def set_mset_mset)

lemma natural_length: "engine_ok e \<Longrightarrow> length (natural_order e ds) = length ds"
  by (metis engine_ok_def size_mset)

lemma natural_filter:
  "engine_ok e \<Longrightarrow> length (filter P (natural_order e ds)) = length (filter P ds)"
  by (metis engine_ok_def mset_filter size_mset)

lemma group_order_set: "engine_ok e \<Longrightarrow> set (group_order e gs) = set gs"
  by (metis engine_ok_def set_mset_mset)

lemma group_order_distinct:
  "engine_ok e \<Longrightarrow> distinct (map fst (group_order e gs)) = distinct (map fst gs)"
  by (metis engine_ok_def mset_map mset_eq_imp_distinct_iff)

lemma group_order_sum:
  "engine_ok e \<Longrightarrow> sum_list (map snd (group_order e gs)) = sum_list (map snd gs)"
  by (metis engine_ok_def mset_map sum_mset_sum_list)

lemma group_stage_keys:
  "engine_ok e \<Longrightarrow> fst ` set (group_stage e docs) = (\<lambda>d. group_key (url d)) ` set docs"
  by (simp add: group_stage_def group_order_set keys_group_scan natural_set)

lemma group_stage_distinct: "engine_ok e \<Longrightarrow> distinct (map fst (group_stage e docs))"
  by (simp add: group_stage_def group_order_distinct distinct_group_scan)

lemma group_stage_count:
  assumes "engine_ok e" "(k, n) \<in> set (group_stage e docs)"
  shows "n = length (filter (\<lambda>d. group_key (url d) = k) docs)"
proof -
  from assms have "(k, n) \<in> set (group_scan (natural_order e docs))"
    by (simp add: group_stage_def group_order_set)
  then have "n = length (filter (\<lambda>d. group_key (url d) = k) (natural_order e docs))"
    by (rule count_group_scan)
  with assms(1) show ?thesis by (simp add: natural_filter)
qed

lemma group_stage_sum: "engine_ok e \<Longrightarrow> sum_list (map snd (group_stage e docs)) = length docs"
  by (simp add: group_stage_def group_order_sum sum_group_scan natural_length)

lemma group_stage_empty: "engine_ok e \<Longrightarrow> group_stage e docs = [] \<longleftrightarrow> docs = []"
  using group_stage_keys[of e docs] by (metis image_is_empty set_empty)

section \<open>Sorting and the top of a descending sort\<close>

lemma set_insort_desc: "set (insort_desc f x ys) = insert x (set ys)"
  by (induction ys) auto

lemma sort_desc_simps [simp]:
  "sort_desc f [] = []"
  "sort_desc f (x # xs) = insort_desc f x (sort_desc f xs)"
  by (simp_all add: sort_desc_def)

lemma set_sort_desc: "set (sort_desc f xs) = set xs"
  by (induction xs) (simp_all add: set_insort_desc)

lemma sorted_insort_desc:
  "sorted_wrt (\<lambda>a b. f b \<le> f a) ys \<Longrightarrow> sorted_wrt (\<lambda>a b. f b \<le> f a) (insort_desc f x ys)"
  by (induction ys) (auto simp: set_insort_desc)

lemma sorted_sort_desc: "sorted_wrt (\<lambda>a b. f b \<le> f a) (sort_desc f xs)"
  by (induction xs) (simp_all add: sorted_insort_desc)

lemma top_of_sorted:
  fixes f :: "'a \<Rightarrow> 'k::linorder"
  assumes "xs \<noteq> []"
  shows "\<exists>g rest. sort_desc f xs = g # rest \<and> g \<in> set xs \<and> (\<forall>x\<in>set xs. f x \<le> f g)"
proof -
  have "set (sort_desc f xs) \<noteq> {}" using assms by (simp add: set_sort_desc)
  then obtain g rest where gr: "sort_desc f xs = g # rest"
    by (cases "sort_desc f xs") auto
  have "sorted_wrt (\<lambda>a b. f b \<le> f a) (g # rest)"
    using sorted_sort_desc[of f xs] gr by simp
  then have below: "\<forall>x\<in>set rest. f x \<le> f g" by simp
  have "set xs = set (g # rest)" using gr set_sort_desc[of f xs] by simp
  with below gr show ?thesis by auto
qed

section \<open>Recording and counting\<close>

lemma engine_ok_enUS: "engine_ok env_enUS"
  by (simp add: engine_ok_def env_enUS_def)

lemma connected_enUS: "connected env_enUS"
  by (simp add: env_enUS_def)

lemma post_stats_cases:
  "post_stats e now b docs =
     (if connected e
      then (case cast_timestamp e (toLocaleString e now) of
              Inl err \<Rightarrow> (internal_error, docs)
            | Inr t \<Rightarrow> (Response 201 (StatBody (Some \<lparr>url = get_field b ''calledService'', timestamp = t\<rparr>)),
                        docs @ [\<lparr>url = get_field b ''calledService'', timestamp = t\<rparr>]))
      else (internal_error, docs))"
  by (simp add: post_stats_def new_Statistic_def save_def split: sum.splits)

lemma status_internal_error: "status internal_error = 500"
  by (simp add: internal_error_def)

lemma record_all_urls:
  "record_all e calls ds = Some docs \<Longrightarrow> map url docs = map url ds @ map (\<lambda>c. Str (snd c)) calls"
proof (induction calls arbitrary: ds)
  case Nil
  then show ?case by simp
next
  case (Cons c cs)
  obtain now ep where c: "c = (now, ep)" by (cases c)
  obtain r ds' where p: "post_stats e now [(''calledService'', Str ep)] ds = (r, ds')"
    by (cases "post_stats e now [(''calledService'', Str ep)] ds")
  from Cons.prems c p have ok: "status r = 201" and rest: "record_all e cs ds' = Some docs"
    by (auto split: if_splits)
  from p ok have "\<exists>t. ds' = ds @ [\<lparr>url = Str ep, timestamp = t\<rparr>]"
    by (auto simp: post_stats_cases get_field_def status_internal_error split: if_splits sum.splits)
  then obtain t where "ds' = ds @ [\<lparr>url = Str ep, timestamp = t\<rparr>]" ..
  with Cons.IH[OF rest] c show ?case by simp
qed

lemma count_by_url:
  assumes "map url docs = map (\<lambda>c. Str (snd c)) calls"
  shows "length (filter (\<lambda>d. group_key (url d) = Str ep) docs) = count_list (map snd calls) ep"
proof -
  have "length (filter (\<lambda>d. group_key (url d) = Str ep) docs)
      = length (filter (\<lambda>u. group_key u = Str ep) (map url docs))"
    by (simp add: filter_map comp_def)
  also have "\<dots> = length (filter (\<lambda>c. snd c = ep) calls)"
    by (simp add: assms filter_map comp_def)
  also have "\<dots> = count_list (map snd calls) ep"
    by (induction calls) auto
  finally show ?thesis .
qed

lemma keys_by_url:
  assumes "map url docs = map (\<lambda>c. Str (snd c)) calls"
  shows "(\<lambda>d. group_key (url d)) ` set docs = Str ` set (map snd calls)"
proof -
  have "(\<lambda>d. group_key (url d)) ` set docs = group_key ` set (map url docs)"
    by (simp add: image_image)
  also have "\<dots> = Str ` set (map snd calls)"
    by (simp add: assms image_image)
  finally show ?thesis .
qed

lemma project_stage_set: "set (project_stage gs) = (\<lambda>(k, c). CountDoc k c) ` set gs"
  by (simp add: project_stage_def)

lemma project_stage_urls: "map url_of (project_stage gs) = map fst gs"
  by (simp add: project_stage_def split_def)

lemma project_stage_counts: "map count_of (project_stage gs) = map snd gs"
  by (simp add: project_stage_def split_def)

lemma project_member: "c \<in> set (project_stage gs) \<longleftrightarrow> (url_of c, count_of c) \<in> set gs"
  by (cases c) (auto simp: project_stage_set)

text \<open>
  Claim C1. After any run of successful \<^verbatim>\<open>record(e)\<close> calls on an empty collection, the
  result of the \<^verbatim>\<open>endpointCounts\<close> aggregation has exactly one entry for each distinct
  endpoint recorded, and the count of each entry is the number of calls made with that
  endpoint. The handler sends this list with status 200 whenever at least one call was made
  (with no call at all the list is empty and the handler answers 404, see C3).
\<close>

theorem endpointCounts_after_records:
  assumes "engine_ok e" and "connected e" and "record_all e calls [] = Some docs"
  shows "\<exists>r. endpointCounts e docs = Inr r
           \<and> distinct (map url_of r)
           \<and> set (map url_of r) = Str ` set (map snd calls)
           \<and> (\<forall>c\<in>set r. \<forall>ep. url_of c = Str ep \<longrightarrow> count_of c = count_list (map snd calls) ep)
           \<and> get_stats_endpoint_counts e docs =
               (if calls = [] then Response 404 (ErrorBody ''No statistics available'')
                else Response 200 (CountsBody r))"
proof -
  let ?r = "project_stage (group_stage e docs)"
  have urls: "map url docs = map (\<lambda>c. Str (snd c)) calls"
    using record_all_urls[OF assms(3)] by simp
  have r: "endpointCounts e docs = Inr ?r"
    using assms(2) by (simp add: endpointCounts_def)
  have d: "distinct (map url_of ?r)"
    using assms(1) by (simp add: project_stage_urls group_stage_distinct)
  have k: "set (map url_of ?r) = Str ` set (map snd calls)"
    using group_stage_keys[OF assms(1), of docs] keys_by_url[OF urls]
    by (simp add: project_stage_urls)
  have c: "count_of c = count_list (map snd calls) ep" if "c \<in> set ?r" "url_of c = Str ep" for c ep
  proof -
    from that have "(Str ep, count_of c) \<in> set (group_stage e docs)"
      by (simp add: project_member)
    then have "count_of c = length (filter (\<lambda>d. group_key (url d) = Str ep) docs)"
      by (rule group_stage_count[OF assms(1)])
    then show ?thesis by (simp add: count_by_url[OF urls])
  qed
  have "?r = [] \<longleftrightarrow> calls = []"
    using group_stage_empty[OF assms(1), of docs] urls
    by (metis Nil_is_map_conv project_stage_urls)
  then have h: "get_stats_endpoint_counts e docs =
               (if calls = [] then Response 404 (ErrorBody ''No statistics available'')
                else Response 200 (CountsBody ?r))"
    by (simp add: get_stats_endpoint_counts_def r no_statistics_def)
  from r d k c h show ?thesis by blast
qed

lemma record_calls3: "record_all env_enUS calls3 [] = Some docs3"
  by code_simp

text \<open>Witness for C1: the scenario of the specification.\<close>

theorem endpointCounts_after_records_witness:
  "engine_ok env_enUS \<and> connected env_enUS \<and> record_all env_enUS calls3 [] = Some docs3
   \<and> (\<exists>r. endpointCounts env_enUS docs3 = Inr r
           \<and> distinct (map url_of r)
           \<and> set (map url_of r) = Str ` set (map snd calls3)
           \<and> (\<forall>c\<in>set r. \<forall>ep. url_of c = Str ep \<longrightarrow> count_of c = count_list (map snd calls3) ep)
           \<and> get_stats_endpoint_counts env_enUS docs3 =
               (if calls3 = [] then Response 404 (ErrorBody ''No statistics available'')
                else Response 200 (CountsBody r)))"
  using endpointCounts_after_records[OF engine_ok_enUS connected_enUS record_calls3]
    engine_ok_enUS connected_enUS record_calls3 by simp

lemma most_called_top:
  assumes "engine_ok e" and "connected e" and "docs \<noteq> []"
  shows "\<exists>k n. get_stats_most_called e docs = Response 200 (CountBody (CountDoc k n))
           \<and> (k, n) \<in> set (group_stage e docs)
           \<and> (\<forall>g\<in>set (group_stage e docs). snd g \<le> n)"
proof -
  let ?gs = "group_stage e docs"
  have "?gs \<noteq> []" using assms(1,3) by (simp add: group_stage_empty)
  then obtain g rest where top: "sort_desc snd ?gs = g # rest" "g \<in> set ?gs"
      "\<forall>x\<in>set ?gs. snd x \<le> snd g"
    using top_of_sorted[of ?gs snd] by blast
  obtain k n where g: "g = (k, n)" by (cases g)
  have "mostCalledStat e docs = Inr [CountDoc k n]"
    using assms(2) top(1) g
    by (simp add: mostCalledStat_def sort_stage_def limit_stage_def project_stage_def)
  then have "get_stats_most_called e docs = Response 200 (CountBody (CountDoc k n))"
    by (simp add: get_stats_most_called_def)
  with top(2,3) g show ?thesis by auto
qed

text \<open>
  Claim C4. On every non-empty collection \<^verbatim>\<open>GET /stats/most-called\<close> answers with one
  entry of the \<^verbatim>\<open>endpointCounts\<close> result whose count is the maximum over all entries; the
  count is the size of the returned endpoint's group and is at least 1.
\<close>

theorem mostCalled_is_maximal:
  assumes "engine_ok e" and "connected e" and "docs \<noteq> []"
  shows "\<exists>c r. get_stats_most_called e docs = Response 200 (CountBody c)
           \<and> endpointCounts e docs = Inr r
           \<and> c \<in> set r
           \<and> (\<forall>x\<in>set r. count_of x \<le> count_of c)
           \<and> count_of c = Max (set (map count_of r))
           \<and> count_of c = length (filter (\<lambda>d. group_key (url d) = url_of c) docs)
           \<and> 1 \<le> count_of c"
proof -
  let ?gs = "group_stage e docs"
  let ?r = "project_stage ?gs"
  obtain k n where kn: "get_stats_most_called e docs = Response 200 (CountBody (CountDoc k n))"
      "(k, n) \<in> set ?gs" "\<forall>g\<in>set ?gs. snd g \<le> n"
    using most_called_top[OF assms] by blast
  have r: "endpointCounts e docs = Inr ?r"
    using assms(2) by (simp add: endpointCounts_def)
  have mem: "CountDoc k n \<in> set ?r"
    using kn(2) by (simp add: project_member)
  have le: "\<forall>x\<in>set ?r. count_of x \<le> n"
    using kn(3) by (force simp: project_member)
  have mx: "n = Max (set (map count_of ?r))"
  proof (rule sym, rule Max_eqI)
    show "finite (set (map count_of ?r))" by simp
    show "y \<le> n" if "y \<in> set (map count_of ?r)" for y using that le by auto
    show "n \<in> set (map count_of ?r)" using mem by force
  qed
  have cnt: "n = length (filter (\<lambda>d. group_key (url d) = k) docs)"
    using kn(2) by (rule group_stage_count[OF assms(1)])
  have "k \<in> (\<lambda>d. group_key (url d)) ` set docs"
    using kn(2) group_stage_keys[OF assms(1), of docs] by force
  then have "filter (\<lambda>d. group_key (url d) = k) docs \<noteq> []"
    by (auto simp: filter_empty_conv)
  with cnt have pos: "1 \<le> n" by (simp add: Suc_le_eq)
  from kn(1) r mem le mx cnt pos show ?thesis
    by (intro exI[of _ "CountDoc k n"] exI[of _ ?r]) simp
qed

text \<open>Witness for C4.\<close>

theorem mostCalled_is_maximal_witness:
  "engine_ok env_enUS \<and> connected env_enUS \<and> docs3 \<noteq> []
   \<and> (\<exists>c r. get_stats_most_called env_enUS docs3 = Response 200 (CountBody c)
           \<and> endpointCounts env_enUS docs3 = Inr r
           \<and> c \<in> set r
           \<and> (\<forall>x\<in>set r. count_of x \<le> count_of c)
           \<and> count_of c = Max (set (map count_of r))
           \<and> count_of c = length (filter (\<lambda>d. group_key (url d) = url_of c) docs3)
           \<and> 1 \<le> count_of c)"
proof -
  have ne: "docs3 \<noteq> []" by (simp add: docs3_def)
  show ?thesis
    using mostCalled_is_maximal[OF engine_ok_enUS connected_enUS ne] engine_ok_enUS connected_enUS ne
    by simp
qed

text \<open>
  Claim C9. The counts of the entries returned by \<^verbatim>\<open>endpointCounts\<close> add up to the number
  of documents in the collection.
\<close>

theorem endpointCounts_sum:
  assumes "engine_ok e" and "connected e"
  shows "\<exists>r. endpointCounts e docs = Inr r \<and> sum_list (map count_of r) = length docs"
  using assms by (simp add: endpointCounts_def project_stage_counts group_stage_sum)

text \<open>Witness for C9.\<close>

theorem endpointCounts_sum_witness:
  "engine_ok env_enUS \<and> connected env_enUS
   \<and> (\<exists>r. endpointCounts env_enUS docs3 = Inr r \<and> sum_list (map count_of r) = length docs3)"
  using endpointCounts_sum[OF engine_ok_enUS connected_enUS, of docs3] engine_ok_enUS connected_enUS
  by simp

section \<open>The latest record\<close>

lemma record_docs2:
  "record_all env_enUS
     [(at_time 2026 11 3 9 0 0, ''checkout''), (at_time 2026 11 3 10 0 0, ''inventory'')] []
     = Some docs2"
  by code_simp

lemma chron_9_10: "chron (at_time 2026 11 3 9 0 0) < chron (at_time 2026 11 3 10 0 0)"
  by (simp add: chron_def at_time_def)

lemma latest_docs2:
  "get_stats_latest env_enUS docs2 =
       Response 200
         (StatBody (Some \<lparr>url = Str ''checkout'', timestamp = TStr ''11/3/2026, 9:00:00 AM''\<rparr>))"
  by code_simp

text \<open>
  Claim C2. \<^verbatim>\<open>GET /stats/latest\<close> should return the record with the greatest
  \<^verbatim>\<open>recordedAt\<close>. The handler sorts on the stored \<^verbatim>\<open>timestamp\<close>, which
  \<^verbatim>\<open>POST /stats\<close> fills with \<^verbatim>\<open>new Date().toLocaleString()\<close>; under the string
  schema the sort is a comparison of strings. After a call at 9:00:00 AM and a call at
  10:00:00 AM of the same day, the handler returns the record of the earlier call.
\<close>

theorem latest_is_not_the_most_recent:
  "record_all env_enUS
     [(at_time 2026 11 3 9 0 0, ''checkout''), (at_time 2026 11 3 10 0 0, ''inventory'')] []
     = Some docs2
   \<and> chron (at_time 2026 11 3 9 0 0) < chron (at_time 2026 11 3 10 0 0)
   \<and> get_stats_latest env_enUS docs2 =
       Response 200
         (StatBody (Some \<lparr>url = Str ''checkout'', timestamp = TStr ''11/3/2026, 9:00:00 AM''\<rparr>))"
  using record_docs2 chron_9_10 latest_docs2 by (intro conjI)

text \<open>
  Claim C5. The stored \<^verbatim>\<open>recordedAt\<close> should be a chronological value, never a
  locale-formatted string. Under the string schema the document that \<^verbatim>\<open>POST /stats\<close>
  stores and returns carries the en-US rendering of the moment of the call.
\<close>

theorem timestamp_is_a_locale_string:
  "post_stats env_enUS (at_time 2026 11 3 9 0 0) [(''calledService'', Str ''checkout'')] [] =
     (Response 201
        (StatBody (Some \<lparr>url = Str ''checkout'', timestamp = TStr ''11/3/2026, 9:00:00 AM''\<rparr>)),
      [\<lparr>url = Str ''checkout'', timestamp = TStr ''11/3/2026, 9:00:00 AM''\<rparr>])"
  by code_simp

section \<open>The empty collection\<close>

text \<open>
  Claim C3, as stated, fails: on the empty collection \<^verbatim>\<open>GET /stats/endpoint-counts\<close> does
  not answer with an empty sequence but with status 404 and the error
  \<^verbatim>\<open>No statistics available\<close>.
\<close>

theorem endpoint_counts_empty_is_not_found:
  "get_stats_endpoint_counts env_enUS [] = Response 404 (ErrorBody ''No statistics available'')
   \<and> get_stats_endpoint_counts env_enUS [] \<noteq> Response 200 (CountsBody [])"
  by code_simp

lemma natural_empty: "engine_ok e \<Longrightarrow> natural_order e [] = []"
  by (metis engine_ok_def mset_zero_iff)

lemma group_stage_Nil: "engine_ok e \<Longrightarrow> group_stage e [] = []"
  by (simp add: group_stage_empty)

text \<open>
  Claim C3, amended. On the empty collection, with the store reachable, \<^verbatim>\<open>GET /stats/latest\<close>
  answers 200 with an empty (null) body, and both \<^verbatim>\<open>GET /stats/most-called\<close> and
  \<^verbatim>\<open>GET /stats/endpoint-counts\<close> answer 404 \<^verbatim>\<open>No statistics available\<close>; none of
  the three answers with the server error 500.
\<close>

theorem empty_store_responses:
  assumes "engine_ok e" and "connected e"
  shows "get_stats_latest e [] = Response 200 (StatBody None)
       \<and> get_stats_most_called e [] = Response 404 (ErrorBody ''No statistics available'')
       \<and> get_stats_endpoint_counts e [] = Response 404 (ErrorBody ''No statistics available'')"
proof -
  have "get_stats_latest e [] = Response 200 (StatBody None)"
    using assms by (simp add: get_stats_latest_def latestStat_def natural_empty)
  moreover have "get_stats_most_called e [] = Response 404 (ErrorBody ''No statistics available'')"
    using assms
    by (simp add: get_stats_most_called_def mostCalledStat_def group_stage_Nil sort_stage_def
        limit_stage_def project_stage_def no_statistics_def)
  moreover have "get_stats_endpoint_counts e [] = Response 404 (ErrorBody ''No statistics available'')"
    using assms
    by (simp add: get_stats_endpoint_counts_def endpointCounts_def group_stage_Nil
        project_stage_def no_statistics_def)
  ultimately show ?thesis by simp
qed

text \<open>Witness for the amended C3.\<close>

theorem empty_store_responses_witness:
  "engine_ok env_enUS \<and> connected env_enUS
   \<and> get_stats_latest env_enUS [] = Response 200 (StatBody None)
   \<and> get_stats_most_called env_enUS [] = Response 404 (ErrorBody ''No statistics available'')
   \<and> get_stats_endpoint_counts env_enUS [] = Response 404 (ErrorBody ''No statistics available'')"
  using empty_store_responses[OF engine_ok_enUS connected_enUS] engine_ok_enUS connected_enUS
  by simp

section \<open>Recording a call\<close>

text \<open>
  Claim C6. A \<^verbatim>\<open>POST /stats\<close> that is answered with status 201 appends exactly one document
  to the collection and returns that document, with the timestamp it was given; the documents
  already stored are unchanged, and the answer does not depend on them.
\<close>

theorem record_appends_one:
  assumes "post_stats e now b docs = (r, docs')" and "status r = 201"
  shows "\<exists>d. docs' = docs @ [d]
           \<and> r = Response 201 (StatBody (Some d))
           \<and> url d = get_field b ''calledService''
           \<and> cast_timestamp e (toLocaleString e now) = Inr (timestamp d)
           \<and> (\<forall>other. fst (post_stats e now b other) = r)"
  using assms
  by (auto simp: post_stats_cases status_internal_error split: if_splits sum.splits)

text \<open>Witness for C6.\<close>

theorem record_appends_one_witness:
  "post_stats env_enUS (at_time 2026 11 3 11 0 0) [(''calledService'', Str ''inventory'')] docs2
     = (Response 201 (StatBody (Some \<lparr>url = Str ''inventory'', timestamp = TStr ''11/3/2026, 11:00:00 AM''\<rparr>)),
        docs2 @ [\<lparr>url = Str ''inventory'', timestamp = TStr ''11/3/2026, 11:00:00 AM''\<rparr>])
   \<and> (\<exists>d. docs2 @ [\<lparr>url = Str ''inventory'', timestamp = TStr ''11/3/2026, 11:00:00 AM''\<rparr>] = docs2 @ [d]
           \<and> url d = get_field [(''calledService'', Str ''inventory'')] ''calledService''
           \<and> cast_timestamp env_enUS (toLocaleString env_enUS (at_time 2026 11 3 11 0 0)) = Inr (timestamp d)
           \<and> (\<forall>other. fst (post_stats env_enUS (at_time 2026 11 3 11 0 0) [(''calledService'', Str ''inventory'')] other)
                 = Response 201 (StatBody (Some \<lparr>url = Str ''inventory'', timestamp = TStr ''11/3/2026, 11:00:00 AM''\<rparr>))))"
proof -
  have p: "post_stats env_enUS (at_time 2026 11 3 11 0 0) [(''calledService'', Str ''inventory'')] docs2
     = (Response 201 (StatBody (Some \<lparr>url = Str ''inventory'', timestamp = TStr ''11/3/2026, 11:00:00 AM''\<rparr>)),
        docs2 @ [\<lparr>url = Str ''inventory'', timestamp = TStr ''11/3/2026, 11:00:00 AM''\<rparr>])"
    by code_simp
  have s: "status (Response 201 (StatBody (Some \<lparr>url = Str ''inventory'', timestamp = TStr ''11/3/2026, 11:00:00 AM''\<rparr>))) = 201"
    by simp
  from record_appends_one[OF p s] p show ?thesis by simp
qed

section \<open>Failure of the store\<close>

lemma connected_down: "\<not> connected env_down"
  by (simp add: env_down_def env_enUS_def)

lemma queries_when_down:
  assumes "\<not> connected e"
  shows "get_stats_latest e docs = Response 500 (ErrorBody ''Internal Server Error'')"
    and "get_stats_most_called e docs = Response 500 (ErrorBody ''Internal Server Error'')"
    and "get_stats_endpoint_counts e docs = Response 500 (ErrorBody ''Internal Server Error'')"
    and "post_stats e now b docs = (Response 500 (ErrorBody ''Internal Server Error''), docs)"
  using assms
  by (simp_all add: get_stats_latest_def latestStat_def get_stats_most_called_def mostCalledStat_def
      get_stats_endpoint_counts_def endpointCounts_def post_stats_cases internal_error_def)

lemma failed_post_keeps_store:
  assumes "status (fst (post_stats e now b docs)) \<noteq> 201"
  shows "post_stats e now b docs = (Response 500 (ErrorBody ''Internal Server Error''), docs)"
proof (cases "connected e")
  case False
  then show ?thesis by (rule queries_when_down(4))
next
  case True
  show ?thesis
  proof (cases "cast_timestamp e (toLocaleString e now)")
    case (Inl err)
    with True show ?thesis by (simp add: post_stats_cases internal_error_def)
  next
    case (Inr t)
    with True have "status (fst (post_stats e now b docs)) = 201"
      by (simp add: post_stats_cases)
    with assms show ?thesis by contradiction
  qed
qed

text \<open>
  Claim C7. When the store cannot be reached, each of the three queries answers with the
  server error 500 and the fixed error body, which carries no record and no count; the same
  holds for \<^verbatim>\<open>POST /stats\<close>. Every \<^verbatim>\<open>POST /stats\<close> that is not answered with 201 is answered
  with that error and leaves the collection as it was.
\<close>

theorem storage_unavailable:
  "(\<not> connected e \<longrightarrow>
      get_stats_latest e docs = Response 500 (ErrorBody ''Internal Server Error'')
    \<and> get_stats_most_called e docs = Response 500 (ErrorBody ''Internal Server Error'')
    \<and> get_stats_endpoint_counts e docs = Response 500 (ErrorBody ''Internal Server Error'')
    \<and> post_stats e now b docs = (Response 500 (ErrorBody ''Internal Server Error''), docs))
   \<and> (status (fst (post_stats e now b docs)) \<noteq> 201 \<longrightarrow>
        post_stats e now b docs = (Response 500 (ErrorBody ''Internal Server Error''), docs))"
proof (intro conjI impI)
  assume "\<not> connected e"
  then show "get_stats_latest e docs = Response 500 (ErrorBody ''Internal Server Error'')"
    and "get_stats_most_called e docs = Response 500 (ErrorBody ''Internal Server Error'')"
    and "get_stats_endpoint_counts e docs = Response 500 (ErrorBody ''Internal Server Error'')"
    and "post_stats e now b docs = (Response 500 (ErrorBody ''Internal Server Error''), docs)"
    by (rule queries_when_down)+
next
  assume "status (fst (post_stats e now b docs)) \<noteq> 201"
  then show "post_stats e now b docs = (Response 500 (ErrorBody ''Internal Server Error''), docs)"
    by (rule failed_post_keeps_store)
qed

text \<open>Witness for C7.\<close>

theorem storage_unavailable_witness:
  "\<not> connected env_down
   \<and> status (fst (post_stats env_down (at_time 2026 11 3 11 0 0) [(''calledService'', Str ''inventory'')] docs2)) \<noteq> 201
   \<and> get_stats_latest env_down docs2 = Response 500 (ErrorBody ''Internal Server Error'')
   \<and> get_stats_most_called env_down docs2 = Response 500 (ErrorBody ''Internal Server Error'')
   \<and> get_stats_endpoint_counts env_down docs2 = Response 500 (ErrorBody ''Internal Server Error'')
   \<and> post_stats env_down (at_time 2026 11 3 11 0 0) [(''calledService'', Str ''inventory'')] docs2
        = (Response 500 (ErrorBody ''Internal Server Error''), docs2)"
proof -
  have c: "\<not> connected env_down" by (rule connected_down)
  have s: "status (fst (post_stats env_down (at_time 2026 11 3 11 0 0)
              [(''calledService'', Str ''inventory'')] docs2)) \<noteq> 201"
    using c by (simp add: post_stats_cases status_internal_error)
  from storage_unavailable[of env_down docs2 "at_time 2026 11 3 11 0 0"
      "[(''calledService'', Str ''inventory'')]"] c s
  show ?thesis by blast
qed

section \<open>A request without the field \<^verbatim>\<open>calledService\<close>\<close>

lemma group_stage_member:
  assumes "engine_ok e" and "d \<in> set docs"
  shows "(group_key (url d), length (filter (\<lambda>x. group_key (url x) = group_key (url d)) docs))
           \<in> set (group_stage e docs)"
proof -
  have "group_key (url d) \<in> fst ` set (group_stage e docs)"
    using assms by (simp add: group_stage_keys)
  then obtain n where n: "(group_key (url d), n) \<in> set (group_stage e docs)"
    by auto
  then have "n = length (filter (\<lambda>x. group_key (url x) = group_key (url d)) docs)"
    by (rule group_stage_count[OF assms(1)])
  with n show ?thesis by simp
qed

lemma group_stage_unique:
  assumes "engine_ok e" and "(k, m) \<in> set (group_stage e docs)" and "(k, n) \<in> set (group_stage e docs)"
  shows "m = n"
  using group_stage_count[OF assms(1,2)] group_stage_count[OF assms(1,3)] by simp

text \<open>
  Claim C10. A \<^verbatim>\<open>POST /stats\<close> whose body has no \<^verbatim>\<open>calledService\<close> field succeeds (given
  a reachable store and a timestamp the schema accepts): a document without \<^verbatim>\<open>url\<close> is
  stored and returned. Such documents form the group \<^verbatim>\<open>null\<close>, which \<^verbatim>\<open>endpointCounts\<close>
  lists with its size and which \<^verbatim>\<open>most-called\<close> returns when every other group is smaller.
\<close>

theorem missing_calledService:
  fixes e :: env and t :: tsval and docs :: "statistic list"
  defines "d \<equiv> \<lparr>url = Undefined, timestamp = t\<rparr>"
  defines "n \<equiv> Suc (length (filter (\<lambda>x. group_key (url x) = Null) docs))"
  assumes "engine_ok e" and "connected e"
    and "map_of b ''calledService'' = None"
    and "cast_timestamp e (toLocaleString e now) = Inr t"
  shows "post_stats e now b docs = (Response 201 (StatBody (Some d)), docs @ [d])
       \<and> (\<exists>r. endpointCounts e (docs @ [d]) = Inr r
              \<and> CountDoc Null n \<in> set r
              \<and> ((\<forall>c\<in>set r. url_of c \<noteq> Null \<longrightarrow> count_of c < n) \<longrightarrow>
                   get_stats_most_called e (docs @ [d]) = Response 200 (CountBody (CountDoc Null n))))"
proof -
  let ?docs = "docs @ [d]"
  let ?gs = "group_stage e ?docs"
  let ?r = "project_stage ?gs"
  have post: "post_stats e now b docs = (Response 201 (StatBody (Some d)), ?docs)"
    using assms(4-6) by (simp add: post_stats_cases get_field_def d_def)
  have r: "endpointCounts e ?docs = Inr ?r"
    using assms(4) by (simp add: endpointCounts_def)
  have "(group_key (url d), length (filter (\<lambda>x. group_key (url x) = group_key (url d)) ?docs))
          \<in> set ?gs"
    using assms(3) by (rule group_stage_member) simp
  then have mem: "(Null, n) \<in> set ?gs"
    by (simp add: d_def n_def)
  then have memr: "CountDoc Null n \<in> set ?r"
    by (simp add: project_member)
  have top: "get_stats_most_called e ?docs = Response 200 (CountBody (CountDoc Null n))"
    if small: "\<forall>c\<in>set ?r. url_of c \<noteq> Null \<longrightarrow> count_of c < n"
  proof -
    obtain k m where km: "get_stats_most_called e ?docs = Response 200 (CountBody (CountDoc k m))"
        "(k, m) \<in> set ?gs" "\<forall>g\<in>set ?gs. snd g \<le> m"
      using most_called_top[OF assms(3,4), of ?docs] by auto
    from km(3) mem have le: "n \<le> m" by force
    have "k = Null"
    proof (rule ccontr)
      assume "k \<noteq> Null"
      moreover have "CountDoc k m \<in> set ?r" using km(2) by (simp add: project_member)
      ultimately have "m < n" using small by force
      with le show False by simp
    qed
    with km(2) mem have "m = n" using group_stage_unique[OF assms(3)] by blast
    with km(1) \<open>k = Null\<close> show ?thesis by simp
  qed
  from post r memr top show ?thesis by blast
qed

lemma cast_enUS: "cast_timestamp env_enUS (toLocaleString env_enUS (at_time 2026 11 3 9 45 0))
    = Inr (TStr ''11/3/2026, 9:45:00 AM'')"
  by code_simp

lemma endpoint_counts_null:
  "endpointCounts env_enUS (docs_null @ [\<lparr>url = Undefined, timestamp = TStr ''11/3/2026, 9:45:00 AM''\<rparr>])
     = Inr [CountDoc (Str ''checkout'') 1, CountDoc Null 2]"
  by code_simp

text \<open>Witness for C10: the body names the field as the API documentation does.\<close>

theorem missing_calledService_witness:
  "engine_ok env_enUS \<and> connected env_enUS
   \<and> map_of [(''klicanaStoritev'', Str ''checkout'')] ''calledService'' = None
   \<and> cast_timestamp env_enUS (toLocaleString env_enUS (at_time 2026 11 3 9 45 0))
        = Inr (TStr ''11/3/2026, 9:45:00 AM'')
   \<and> post_stats env_enUS (at_time 2026 11 3 9 45 0) [(''klicanaStoritev'', Str ''checkout'')] docs_null
        = (Response 201 (StatBody (Some \<lparr>url = Undefined, timestamp = TStr ''11/3/2026, 9:45:00 AM''\<rparr>)),
           docs_null @ [\<lparr>url = Undefined, timestamp = TStr ''11/3/2026, 9:45:00 AM''\<rparr>])
   \<and> endpointCounts env_enUS
        (docs_null @ [\<lparr>url = Undefined, timestamp = TStr ''11/3/2026, 9:45:00 AM''\<rparr>])
        = Inr [CountDoc (Str ''checkout'') 1, CountDoc Null 2]
   \<and> get_stats_most_called env_enUS
        (docs_null @ [\<lparr>url = Undefined, timestamp = TStr ''11/3/2026, 9:45:00 AM''\<rparr>])
        = Response 200 (CountBody (CountDoc Null 2))"
proof -
  let ?d = "\<lparr>url = Undefined, timestamp = TStr ''11/3/2026, 9:45:00 AM''\<rparr>"
  have m: "map_of [(''klicanaStoritev'', Str ''checkout'')] ''calledService'' = None"
    by simp
  have f: "Suc (length (filter (\<lambda>x. group_key (url x) = Null) docs_null)) = 2"
    by (simp add: docs_null_def)
  have small: "\<forall>c\<in>set [CountDoc (Str ''checkout'') 1, CountDoc Null 2].
                 url_of c \<noteq> Null \<longrightarrow> count_of c < 2"
    by simp
  from missing_calledService[OF engine_ok_enUS connected_enUS m cast_enUS, of docs_null]
  have post: "post_stats env_enUS (at_time 2026 11 3 9 45 0) [(''klicanaStoritev'', Str ''checkout'')]
                docs_null = (Response 201 (StatBody (Some ?d)), docs_null @ [?d])"
    and ex: "\<exists>r. endpointCounts env_enUS (docs_null @ [?d]) = Inr r
              \<and> CountDoc Null 2 \<in> set r
              \<and> ((\<forall>c\<in>set r. url_of c \<noteq> Null \<longrightarrow> count_of c < 2) \<longrightarrow>
                   get_stats_most_called env_enUS (docs_null @ [?d])
                     = Response 200 (CountBody (CountDoc Null 2)))"
    unfolding f by blast+
  from ex obtain r where r: "endpointCounts env_enUS (docs_null @ [?d]) = Inr r"
    and imp: "(\<forall>c\<in>set r. url_of c \<noteq> Null \<longrightarrow> count_of c < 2) \<longrightarrow>
                get_stats_most_called env_enUS (docs_null @ [?d])
                  = Response 200 (CountBody (CountDoc Null 2))"
    by blast
  from r have "r = [CountDoc (Str ''checkout'') 1, CountDoc Null 2]"
    by (simp add: endpoint_counts_null)
  with imp small have top: "get_stats_most_called env_enUS (docs_null @ [?d])
                  = Response 200 (CountBody (CountDoc Null 2))"
    by blast
  from engine_ok_enUS connected_enUS m cast_enUS post endpoint_counts_null top show ?thesis
    by (intro conjI)
qed

section \<open>Repeated reads\<close>

lemma engine_ok_rev: "engine_ok env_rev"
  by (simp add: engine_ok_def env_rev_def env_enUS_def)

lemma connected_rev: "connected env_rev"
  by (simp add: env_rev_def env_enUS_def)

lemma most_called_tie:
  "get_stats_most_called env_enUS docs_tie = Response 200 (CountBody (CountDoc (Str ''checkout'') 2))"
  by code_simp

lemma most_called_tie_rev:
  "get_stats_most_called env_rev docs_tie = Response 200 (CountBody (CountDoc (Str ''inventory'') 2))"
  by code_simp

text \<open>
  Claim C8, as stated, fails: the \<^verbatim>\<open>most-called\<close> pipeline sorts on \<^verbatim>\<open>count\<close> alone, so
  among endpoints tied at the maximal count the answer is whichever group the engine delivers
  first. On one and the same collection, with two endpoints at two calls each, an engine that
  emits the groups in one order makes the handler answer \<^verbatim>\<open>checkout\<close>, and an engine that
  emits them in the opposite order makes it answer \<^verbatim>\<open>inventory\<close>.
\<close>

theorem most_called_tie_depends_on_engine:
  "engine_ok env_enUS \<and> engine_ok env_rev \<and> connected env_enUS \<and> connected env_rev
   \<and> get_stats_most_called env_enUS docs_tie
        = Response 200 (CountBody (CountDoc (Str ''checkout'') 2))
   \<and> get_stats_most_called env_rev docs_tie
        = Response 200 (CountBody (CountDoc (Str ''inventory'') 2))
   \<and> get_stats_most_called env_enUS docs_tie \<noteq> get_stats_most_called env_rev docs_tie"
proof -
  have "get_stats_most_called env_enUS docs_tie \<noteq> get_stats_most_called env_rev docs_tie"
    by (simp add: most_called_tie most_called_tie_rev)
  with engine_ok_enUS engine_ok_rev connected_enUS connected_rev most_called_tie most_called_tie_rev
  show ?thesis by (intro conjI)
qed

lemma group_stage_set:
  assumes "engine_ok e"
  shows "set (group_stage e docs) =
           (\<lambda>d. (group_key (url d), length (filter (\<lambda>x. group_key (url x) = group_key (url d)) docs)))
             ` set docs"
proof (intro set_eqI iffI)
  fix g assume g: "g \<in> set (group_stage e docs)"
  obtain k n where kn: "g = (k, n)" by (cases g)
  with g have "k \<in> fst ` set (group_stage e docs)" by force
  then obtain d where d: "d \<in> set docs" "k = group_key (url d)"
    using assms by (auto simp: group_stage_keys)
  from g kn have "n = length (filter (\<lambda>x. group_key (url x) = k) docs)"
    using group_stage_count[OF assms] by simp
  with d kn show "g \<in> (\<lambda>d. (group_key (url d),
      length (filter (\<lambda>x. group_key (url x) = group_key (url d)) docs))) ` set docs"
    by auto
next
  fix g assume "g \<in> (\<lambda>d. (group_key (url d),
      length (filter (\<lambda>x. group_key (url x) = group_key (url d)) docs))) ` set docs"
  then show "g \<in> set (group_stage e docs)"
    using group_stage_member[OF assms] by auto
qed

lemma group_stage_mset:
  assumes "engine_ok e1" and "engine_ok e2"
  shows "mset (group_stage e1 docs) = mset (group_stage e2 docs)"
proof -
  have "distinct (group_stage e1 docs)" "distinct (group_stage e2 docs)"
    using assms group_stage_distinct distinct_map by blast+
  moreover have "set (group_stage e1 docs) = set (group_stage e2 docs)"
    using assms by (simp add: group_stage_set)
  ultimately show ?thesis by (simp add: set_eq_iff_mset_eq_distinct)
qed

lemma endpoint_counts_mset:
  assumes "engine_ok e1" and "engine_ok e2"
  shows "mset (project_stage (group_stage e1 docs)) = mset (project_stage (group_stage e2 docs))"
proof -
  have "mset (project_stage (group_stage e1 docs))
      = image_mset (\<lambda>(k, c). CountDoc k c) (mset (group_stage e1 docs))"
    by (simp add: project_stage_def)
  also have "\<dots> = image_mset (\<lambda>(k, c). CountDoc k c) (mset (group_stage e2 docs))"
    by (simp only: group_stage_mset[OF assms, of docs])
  also have "\<dots> = mset (project_stage (group_stage e2 docs))"
    by (simp add: project_stage_def)
  finally show ?thesis .
qed

lemma most_called_agree:
  assumes "engine_ok e1" and "engine_ok e2" and "connected e1" and "connected e2" and "docs \<noteq> []"
  shows "\<exists>c1 c2. get_stats_most_called e1 docs = Response 200 (CountBody c1)
           \<and> get_stats_most_called e2 docs = Response 200 (CountBody c2)
           \<and> count_of c1 = count_of c2
           \<and> ((\<forall>x\<in>set (project_stage (group_stage e1 docs)). x \<noteq> c1 \<longrightarrow> count_of x < count_of c1)
                \<longrightarrow> c1 = c2)"
proof -
  let ?g1 = "group_stage e1 docs" and ?g2 = "group_stage e2 docs"
  obtain k1 n1 where t1: "get_stats_most_called e1 docs = Response 200 (CountBody (CountDoc k1 n1))"
      "(k1, n1) \<in> set ?g1" "\<forall>g\<in>set ?g1. snd g \<le> n1"
    using most_called_top[OF assms(1,3,5)] by blast
  obtain k2 n2 where t2: "get_stats_most_called e2 docs = Response 200 (CountBody (CountDoc k2 n2))"
      "(k2, n2) \<in> set ?g2" "\<forall>g\<in>set ?g2. snd g \<le> n2"
    using most_called_top[OF assms(2,4,5)] by blast
  have same: "set ?g1 = set ?g2"
    using assms(1,2) by (simp add: group_stage_set)
  from t1(2,3) t2(2,3) same have "n1 \<le> n2" "n2 \<le> n1" by force+
  then have n: "n1 = n2" by simp
  have u: "CountDoc k1 n1 = CountDoc k2 n2"
    if "\<forall>x\<in>set (project_stage ?g1). x \<noteq> CountDoc k1 n1 \<longrightarrow> count_of x < count_of (CountDoc k1 n1)"
  proof (rule ccontr)
    assume neq: "CountDoc k1 n1 \<noteq> CountDoc k2 n2"
    have "CountDoc k2 n2 \<in> set (project_stage ?g1)"
      using t2(2) same by (simp add: project_member)
    with that neq have "n2 < n1" by force
    with n show False by simp
  qed
  from t1(1) t2(1) n u show ?thesis
    by (intro exI[of _ "CountDoc k1 n1"] exI[of _ "CountDoc k2 n2"]) simp
qed

lemma latest_top:
  assumes "engine_ok e" and "connected e" and "docs \<noteq> []"
  shows "\<exists>d. get_stats_latest e docs = Response 200 (StatBody (Some d)) \<and> d \<in> set docs
           \<and> (\<forall>x\<in>set docs. ts_key (timestamp x) \<le> ts_key (timestamp d))"
proof -
  let ?ds = "natural_order e docs"
  have "?ds \<noteq> []" using assms(1,3) by (metis natural_set set_empty)
  then obtain d rest where top: "sort_desc (\<lambda>d. ts_key (timestamp d)) ?ds = d # rest"
      "d \<in> set ?ds" "\<forall>x\<in>set ?ds. ts_key (timestamp x) \<le> ts_key (timestamp d)"
    using top_of_sorted[of ?ds "\<lambda>d. ts_key (timestamp d)"] by blast
  have "get_stats_latest e docs = Response 200 (StatBody (Some d))"
    using assms(2) top(1) by (simp add: get_stats_latest_def latestStat_def)
  with top(2,3) assms(1) show ?thesis by (auto simp: natural_set)
qed

lemma latest_agree:
  assumes "engine_ok e1" and "engine_ok e2" and "connected e1" and "connected e2" and "docs \<noteq> []"
  shows "\<exists>d1 d2. get_stats_latest e1 docs = Response 200 (StatBody (Some d1))
           \<and> get_stats_latest e2 docs = Response 200 (StatBody (Some d2))
           \<and> ts_key (timestamp d1) = ts_key (timestamp d2)
           \<and> ((\<forall>x\<in>set docs. x \<noteq> d1 \<longrightarrow> ts_key (timestamp x) < ts_key (timestamp d1)) \<longrightarrow> d1 = d2)"
proof -
  obtain d1 where t1: "get_stats_latest e1 docs = Response 200 (StatBody (Some d1))" "d1 \<in> set docs"
      "\<forall>x\<in>set docs. ts_key (timestamp x) \<le> ts_key (timestamp d1)"
    using latest_top[OF assms(1,3,5)] by blast
  obtain d2 where t2: "get_stats_latest e2 docs = Response 200 (StatBody (Some d2))" "d2 \<in> set docs"
      "\<forall>x\<in>set docs. ts_key (timestamp x) \<le> ts_key (timestamp d2)"
    using latest_top[OF assms(2,4,5)] by blast
  from t1(2,3) t2(2,3) have k: "ts_key (timestamp d1) = ts_key (timestamp d2)"
    by (meson order_antisym)
  have u: "d1 = d2" if "\<forall>x\<in>set docs. x \<noteq> d1 \<longrightarrow> ts_key (timestamp x) < ts_key (timestamp d1)"
  proof (rule ccontr)
    assume "d1 \<noteq> d2"
    with that t2(2) have "ts_key (timestamp d2) < ts_key (timestamp d1)" by auto
    with k show False by simp
  qed
  from t1(1) t2(1) k u show ?thesis by blast
qed

lemma read_keeps_store: "is_read q \<Longrightarrow> snd (handle e q docs) = docs"
  by (cases q) simp_all

text \<open>
  Claim C8, amended. On every non-empty collection a read request leaves the collection
  unchanged, and two invocations of the same read agree in everything the code determines,
  whatever orders the engine chooses for each of them: \<^verbatim>\<open>endpoint-counts\<close> answers with the
  same entries up to their order, \<^verbatim>\<open>most-called\<close> with the same count, and \<^verbatim>\<open>latest\<close> with
  a record of the same stored timestamp. \<^verbatim>\<open>most-called\<close> answers with the same endpoint
  whenever a single endpoint has the maximal count, and \<^verbatim>\<open>latest\<close> with the same record
  whenever a single record has the maximal timestamp.
\<close>

theorem reads_agree_up_to_engine_order:
  assumes "engine_ok e1" and "engine_ok e2" and "connected e1" and "connected e2"
    and "docs \<noteq> []"
  shows "(\<exists>r1 r2. get_stats_endpoint_counts e1 docs = Response 200 (CountsBody r1)
            \<and> get_stats_endpoint_counts e2 docs = Response 200 (CountsBody r2)
            \<and> mset r1 = mset r2
            \<and> (\<exists>c1 c2. get_stats_most_called e1 docs = Response 200 (CountBody c1)
                  \<and> get_stats_most_called e2 docs = Response 200 (CountBody c2)
                  \<and> count_of c1 = count_of c2
                  \<and> ((\<forall>x\<in>set r1. x \<noteq> c1 \<longrightarrow> count_of x < count_of c1) \<longrightarrow> c1 = c2)))
       \<and> (\<exists>d1 d2. get_stats_latest e1 docs = Response 200 (StatBody (Some d1))
            \<and> get_stats_latest e2 docs = Response 200 (StatBody (Some d2))
            \<and> ts_key (timestamp d1) = ts_key (timestamp d2)
            \<and> ((\<forall>x\<in>set docs. x \<noteq> d1 \<longrightarrow> ts_key (timestamp x) < ts_key (timestamp d1))
                 \<longrightarrow> d1 = d2))
       \<and> (\<forall>q. is_read q \<longrightarrow> snd (handle e1 q docs) = docs \<and> snd (handle e2 q docs) = docs)"
proof -
  let ?r1 = "project_stage (group_stage e1 docs)"
  let ?r2 = "project_stage (group_stage e2 docs)"
  have ne: "?r1 \<noteq> []" "?r2 \<noteq> []"
    using assms(1,2,5) by (simp_all add: project_stage_def group_stage_empty)
  have a1: "get_stats_endpoint_counts e1 docs = Response 200 (CountsBody ?r1)"
    using assms(3) ne(1) by (simp add: get_stats_endpoint_counts_def endpointCounts_def)
  have a2: "get_stats_endpoint_counts e2 docs = Response 200 (CountsBody ?r2)"
    using assms(4) ne(2) by (simp add: get_stats_endpoint_counts_def endpointCounts_def)
  have m: "mset ?r1 = mset ?r2"
    using assms(1,2) by (rule endpoint_counts_mset)
  note mc = most_called_agree[OF assms]
  note la = latest_agree[OF assms]
  have rd: "\<forall>q. is_read q \<longrightarrow> snd (handle e1 q docs) = docs \<and> snd (handle e2 q docs) = docs"
    by (simp add: read_keeps_store)
  from a1 a2 m mc have first: "\<exists>r1 r2. get_stats_endpoint_counts e1 docs = Response 200 (CountsBody r1)
            \<and> get_stats_endpoint_counts e2 docs = Response 200 (CountsBody r2)
            \<and> mset r1 = mset r2
            \<and> (\<exists>c1 c2. get_stats_most_called e1 docs = Response 200 (CountBody c1)
                  \<and> get_stats_most_called e2 docs = Response 200 (CountBody c2)
                  \<and> count_of c1 = count_of c2
                  \<and> ((\<forall>x\<in>set r1. x \<noteq> c1 \<longrightarrow> count_of x < count_of c1) \<longrightarrow> c1 = c2))"
    by (intro exI[of _ ?r1] exI[of _ ?r2] conjI)
  from first la rd show ?thesis by (intro conjI)
qed

lemma endpoint_counts_docs3:
  "get_stats_endpoint_counts env_enUS docs3 =
     Response 200 (CountsBody [CountDoc (Str ''checkout'') 2, CountDoc (Str ''inventory'') 1])"
  by code_simp

lemma most_called_docs3:
  "get_stats_most_called env_enUS docs3 = Response 200 (CountBody (CountDoc (Str ''checkout'') 2))"
  by code_simp

lemma latest_docs3:
  "get_stats_latest env_enUS docs3 =
     Response 200 (StatBody (Some \<lparr>url = Str ''checkout'', timestamp = TStr ''11/3/2026, 9:00:00 AM''\<rparr>))"
  by code_simp

lemma latest_docs3_unique:
  "\<forall>x\<in>set docs3. x \<noteq> \<lparr>url = Str ''checkout'', timestamp = TStr ''11/3/2026, 9:00:00 AM''\<rparr> \<longrightarrow>
     ts_key (timestamp x) < ts_key (timestamp \<lparr>url = Str ''checkout'', timestamp = TStr ''11/3/2026, 9:00:00 AM''\<rparr>)"
  by (simp add: docs3_def)

text \<open>
  Witness for the amended C8: the scenario of the specification, read once with each of the
  two engines; one endpoint alone has the maximal count and one record the maximal timestamp.
\<close>

theorem reads_agree_up_to_engine_order_witness:
  "engine_ok env_enUS \<and> engine_ok env_rev \<and> connected env_enUS \<and> connected env_rev
   \<and> docs3 \<noteq> []
   \<and> get_stats_most_called env_rev docs3 = Response 200 (CountBody (CountDoc (Str ''checkout'') 2))
   \<and> get_stats_latest env_rev docs3 =
       Response 200 (StatBody (Some \<lparr>url = Str ''checkout'', timestamp = TStr ''11/3/2026, 9:00:00 AM''\<rparr>))"
proof -
  let ?c = "CountDoc (Str ''checkout'') 2"
  let ?d = "\<lparr>url = Str ''checkout'', timestamp = TStr ''11/3/2026, 9:00:00 AM''\<rparr>"
  have ne: "docs3 \<noteq> []" by (simp add: docs3_def)
  note th = reads_agree_up_to_engine_order[OF engine_ok_enUS engine_ok_rev connected_enUS
      connected_rev ne]
  from th obtain r1 c1 c2 where
      r1: "get_stats_endpoint_counts env_enUS docs3 = Response 200 (CountsBody r1)"
    and c1: "get_stats_most_called env_enUS docs3 = Response 200 (CountBody c1)"
    and c2: "get_stats_most_called env_rev docs3 = Response 200 (CountBody c2)"
    and cu: "(\<forall>x\<in>set r1. x \<noteq> c1 \<longrightarrow> count_of x < count_of c1) \<longrightarrow> c1 = c2"
    by blast
  from r1 have r1': "r1 = [CountDoc (Str ''checkout'') 2, CountDoc (Str ''inventory'') 1]"
    by (simp add: endpoint_counts_docs3)
  from c1 have c1': "c1 = ?c" by (simp add: most_called_docs3)
  have "\<forall>x\<in>set r1. x \<noteq> c1 \<longrightarrow> count_of x < count_of c1"
    unfolding r1' c1' by simp
  with cu c1' have "c2 = ?c" by simp
  with c2 have mc: "get_stats_most_called env_rev docs3 = Response 200 (CountBody ?c)" by simp
  from th obtain d1 d2 where
      d1: "get_stats_latest env_enUS docs3 = Response 200 (StatBody (Some d1))"
    and d2: "get_stats_latest env_rev docs3 = Response 200 (StatBody (Some d2))"
    and du: "(\<forall>x\<in>set docs3. x \<noteq> d1 \<longrightarrow> ts_key (timestamp x) < ts_key (timestamp d1)) \<longrightarrow> d1 = d2"
    by blast
  from d1 have d1': "d1 = ?d" by (simp add: latest_docs3)
  with du latest_docs3_unique have "d2 = ?d" by simp
  with d2 have la: "get_stats_latest env_rev docs3 = Response 200 (StatBody (Some ?d))" by simp
  from engine_ok_enUS engine_ok_rev connected_enUS connected_rev ne mc la show ?thesis
    by (intro conjI)
qed

end
